theory Spec2Isabelle
  imports Main "HOL-Library.AList" "HOL-Library.Multiset"
begin

section \<open>Data model of the weekly scheduling engine (week-core.js)\<close>

text \<open>
  The engine works on integer minute values, 15-minute slots and JavaScript objects used
  as dictionaries. Minutes and sequence numbers are modelled as \<open>int\<close>, array indices
  as \<open>nat\<close>, and an object used as a dictionary as an association list in insertion
  order (\<open>map_of\<close> reads a key, \<open>AList.update\<close> assigns it, \<open>AList.delete\<close> is
  the \<^verbatim>\<open>delete\<close> operator, and the empty list is the object without keys).

  A \<^verbatim>\<open>Date\<close> that has been set to local midnight is modelled by its day number (whole
  days since 1970-01-01 in local calendar time). \<^verbatim>\<open>_fmtDate\<close> prints the calendar day
  as \<^verbatim>\<open>YYYY-MM-DD\<close>; different days print differently, so the day number itself stands
  for the date key and for the week key. The month key is the pair of year and month.
\<close>

type_synonym taskKey = string
type_synonym date = int
type_synonym dateKey = int
type_synonym weekKey = int
type_synonym monthKey = "int \<times> int"
type_synonym ('k, 'v) dict = "('k \<times> 'v) list"

record task =
  key :: taskKey
  label :: string
  color :: string
  hard :: bool

record range =
  startMin :: int
  endMin :: int

type_synonym weekRanges = "range list list"
type_synonym weekSlots = "taskKey option list list"

record core =
  TASKS :: "task list"
  EXACT :: "(taskKey, weekRanges) dict"
  byDate :: "(dateKey, (taskKey, range list) dict) dict"
  byWeek :: "(weekKey, (taskKey, weekRanges) dict) dict"
  byMonth :: "(monthKey, (taskKey, weekRanges) dict) dict"
  LAST_SCOPE :: "(taskKey, string) dict"
  ORDER_recurring :: "(taskKey, int) dict"
  ORDER_week :: "(weekKey, (taskKey, int) dict) dict"
  ORDER_month :: "(monthKey, (taskKey, int) dict) dict"
  saveSeq :: int
  weekOffset :: int
  visibleWeekFirst :: date


section \<open>Small helpers\<close>

definition SLOTS_PER_DAY :: nat where
  "SLOTS_PER_DAY = 96"

definition blankWeekRanges :: weekRanges where
  "blankWeekRanges = replicate 7 []"

definition blankWeekSlots :: weekSlots where
  "blankWeekSlots = replicate 7 (replicate SLOTS_PER_DAY None)"

text \<open>\<^verbatim>\<open>w[d] || []\<close>: the day's list, or the empty list past the end of the array.\<close>

definition dayOf :: "weekRanges \<Rightarrow> nat \<Rightarrow> range list" where
  "dayOf w d = (if d < length w then w ! d else [])"

text \<open>\<^verbatim>\<open>_deepCopyWeek(w)\<close>: always seven days; a missing week or day is empty.\<close>

definition deepCopyWeek :: "weekRanges option \<Rightarrow> weekRanges" where
  "deepCopyWeek w = map (\<lambda>i. case w of None \<Rightarrow> [] | Some v \<Rightarrow> dayOf v i) [0..<7]"

text \<open>\<^verbatim>\<open>m[k1]?.[k2]\<close> on nested dictionaries.\<close>

definition lookup2 :: "('a, ('b, 'v) dict) dict \<Rightarrow> 'a \<Rightarrow> 'b \<Rightarrow> 'v option" where
  "lookup2 m k1 k2 = (case map_of m k1 of None \<Rightarrow> None | Some inner \<Rightarrow> map_of inner k2)"

text \<open>
  \<^verbatim>\<open>Math.round(min/15)\<close>: JavaScript rounds to the nearest integer, halves upwards,
  that is \<open>\<lfloor>min/15 + 1/2\<rfloor>\<close>; on an integer this is \<open>(2 * min + 15) div 30\<close>.
\<close>

definition roundQuarter :: "int \<Rightarrow> int" where
  "roundQuarter m = (2 * m + 15) div 30"

definition round15 :: "int \<Rightarrow> int" where
  "round15 m = roundQuarter m * 15"

definition minsToSlot :: "int \<Rightarrow> int" where
  "minsToSlot m = max 0 (min (int SLOTS_PER_DAY) (roundQuarter m))"

text \<open>\<^verbatim>\<open>x|0\<close>: conversion to a signed 32-bit integer, written out with its wrap-around.\<close>

definition toInt32 :: "int \<Rightarrow> int" where
  "toInt32 x = (x + 2147483648) mod 4294967296 - 2147483648"

subsection \<open>Calendar\<close>

text \<open>Day 0 (1970-01-01) was a Thursday; \<^verbatim>\<open>getDay()\<close> counts from Sunday = 0.\<close>

definition getDay :: "date \<Rightarrow> nat" where
  "getDay d = nat ((d + 4) mod 7)"

definition addDays :: "date \<Rightarrow> int \<Rightarrow> date" where
  "addDays d n = d + n"

text \<open>Year and month (1..12) of a day number in the proleptic Gregorian calendar.\<close>

definition yearMonth :: "date \<Rightarrow> int \<times> int" where
  "yearMonth d =
     (let z = d + 719468;
          era = z div 146097;
          doe = z mod 146097;
          yoe = (doe - doe div 1460 + doe div 36524 - doe div 146096) div 365;
          doy = doe - (365 * yoe + yoe div 4 - yoe div 100);
          mp = (5 * doy + 2) div 153;
          m = (if mp < 10 then mp + 3 else mp - 9);
          y = yoe + era * 400
      in (if m \<le> 2 then y + 1 else y, m))"

definition fmtDate :: "date \<Rightarrow> dateKey" where
  "fmtDate d = d"

definition fmtMonthKey :: "date \<Rightarrow> monthKey" where
  "fmtMonthKey d = yearMonth d"

definition fmtWeekKey :: "date \<Rightarrow> weekKey" where
  "fmtWeekKey first = fmtDate first"

section \<open>Geometry calculator\<close>






section \<open>Effective-range resolver\<close>

text \<open>
  \<^verbatim>\<open>_effectiveExactForTask(taskKey)\<close>: the recurring template, replaced by the month
  override, then by the week override, then day by day by the date overrides. The function
  only reads the stores and copies what it returns, so it is a function of the state
  into the result with no new state.
\<close>

definition effectiveExactForTask :: "core \<Rightarrow> taskKey \<Rightarrow> weekRanges" where
  "effectiveExactForTask st taskKey =
     (let eff0 = deepCopyWeek (map_of (EXACT st) taskKey);
          wkKey = fmtWeekKey (visibleWeekFirst st);
          moKey = fmtMonthKey (visibleWeekFirst st);
          weekOverride = lookup2 (byWeek st) wkKey taskKey;
          monthOverride = lookup2 (byMonth st) moKey taskKey;
          eff1 = (case monthOverride of None \<Rightarrow> eff0 | Some w \<Rightarrow> deepCopyWeek (Some w));
          eff2 = (case weekOverride of None \<Rightarrow> eff1 | Some w \<Rightarrow> deepCopyWeek (Some w))
      in fold (\<lambda>d eff.
                 case lookup2 (byDate st) (fmtDate (addDays (visibleWeekFirst st) (int d))) taskKey of
                   None \<Rightarrow> eff
                 | Some dayOverride \<Rightarrow> eff[d := dayOverride])
           [0..<7] eff2)"

section \<open>Slot grid builder\<close>

text \<open>
  \<^verbatim>\<open>_applyRangesToSlots(cat, exact, targetSlots)\<close>. For one range of day \<open>d\<close>,
  \<open>rangeCells\<close> lists the cells \<open>(day, slot)\<close> that the inner \<^verbatim>\<open>for\<close> loops visit,
  in the order they visit them; \<open>claimSlot\<close> is the loop body
  \<^verbatim>\<open>if(targetSlots[d][s]===null) targetSlots[d][s]=cat\<close>. Reading a slot past the end
  of a day's array gives \<^verbatim>\<open>undefined\<close>, which is not \<^verbatim>\<open>null\<close>, so nothing is written
  there.
\<close>

definition rangeCells :: "nat \<Rightarrow> range \<Rightarrow> (nat \<times> nat) list" where
  "rangeCells d R =
     (let a = round15 (startMin R); b = round15 (endMin R)
      in if b = a then []
         else if b > a then
           map (Pair d) [nat (minsToSlot a)..<nat (minsToSlot b)]
         else
           map (Pair d) [nat (minsToSlot a)..<nat (minsToSlot (24 * 60))] @
           map (Pair ((d + 1) mod 7)) [nat (minsToSlot 0)..<nat (minsToSlot b)])"

definition claimSlot :: "taskKey \<Rightarrow> nat \<times> nat \<Rightarrow> weekSlots \<Rightarrow> weekSlots" where
  "claimSlot cat c targetSlots =
     (case c of (d, s) \<Rightarrow>
        if d < length targetSlots \<and> s < length (targetSlots ! d) \<and> targetSlots ! d ! s = None
        then targetSlots[d := (targetSlots ! d)[s := Some cat]]
        else targetSlots)"

definition applyRangesToSlots :: "taskKey \<Rightarrow> weekRanges \<Rightarrow> weekSlots \<Rightarrow> weekSlots" where
  "applyRangesToSlots cat exact targetSlots =
     fold (\<lambda>d g. fold (\<lambda>R g. fold (claimSlot cat) (rangeCells d R) g) (dayOf exact d) g)
       [0..<7] targetSlots"

text \<open>
  The cells that the loops of \<^verbatim>\<open>_applyRangesToSlots\<close> visit for a whole week of ranges,
  in the order of the visits, and the shape of a grid made by \<^verbatim>\<open>_blankWeekSlots()\<close>.
\<close>

definition coveredCells :: "weekRanges \<Rightarrow> (nat \<times> nat) list" where
  "coveredCells exact = concat (map (\<lambda>d. concat (map (rangeCells d) (dayOf exact d))) [0..<7])"

definition wfSlots :: "weekSlots \<Rightarrow> bool" where
  "wfSlots g = (length g = 7 \<and> list_all (\<lambda>row. length row = SLOTS_PER_DAY) g)"

text \<open>
  \<^verbatim>\<open>seqForTask\<close>: \<open>definedStamps\<close> is \<^verbatim>\<open>seqs.filter(x=>typeof x==='number')\<close>, the
  stamps that exist among the week, month and recurring scope; the result is the first of
  them after sorting, or \<^verbatim>\<open>1e9\<close> when there is none.
\<close>

definition definedStamps :: "core \<Rightarrow> taskKey \<Rightarrow> int list" where
  "definedStamps st taskKey =
     (let wkKey = fmtWeekKey (visibleWeekFirst st);
          moKey = fmtMonthKey (visibleWeekFirst st);
          seqs = [lookup2 (ORDER_week st) wkKey taskKey,
                  lookup2 (ORDER_month st) moKey taskKey,
                  map_of (ORDER_recurring st) taskKey]
      in [x. Some x \<leftarrow> seqs])"

definition seqForTask :: "core \<Rightarrow> taskKey \<Rightarrow> int" where
  "seqForTask st taskKey =
     (case sort (definedStamps st taskKey) of [] \<Rightarrow> 1000000000 | x # _ \<Rightarrow> x)"

text \<open>
  \<^verbatim>\<open>[...this.TASKS.map(t=>t.key)].sort((a,b)=>seqForTask(a)-seqForTask(b))\<close>.
  \<^verbatim>\<open>Array.prototype.sort\<close> is a stable sort; \<open>sort_key\<close> is the stable sort by a key.
\<close>

definition orderedKeys :: "core \<Rightarrow> taskKey list" where
  "orderedKeys st = sort_key (seqForTask st) (map key (TASKS st))"

text \<open>\<^verbatim>\<open>_rebuildSlotsForVisibleWeek()\<close>: the value it assigns to \<^verbatim>\<open>_allSlots\<close>.\<close>

definition rebuildSlotsForVisibleWeek :: "core \<Rightarrow> weekSlots" where
  "rebuildSlotsForVisibleWeek st =
     fold (\<lambda>k g. applyRangesToSlots k (effectiveExactForTask st k) g) (orderedKeys st) blankWeekSlots"

definition buildOccupancyMap :: "core \<Rightarrow> taskKey \<Rightarrow> weekSlots" where
  "buildOccupancyMap st excludeTaskKey =
     fold (\<lambda>k occ. if k = excludeTaskKey then occ
                    else applyRangesToSlots k (effectiveExactForTask st k) occ)
       (orderedKeys st) blankWeekSlots"

section \<open>Range normalizer and clipper\<close>

text \<open>
  \<^verbatim>\<open>_getTodayTargetInVisibleWeek()\<close>; \<open>now\<close> is the day number of \<^verbatim>\<open>new Date()\<close>.
\<close>

definition getTodayTargetInVisibleWeek :: "core \<Rightarrow> date \<Rightarrow> date \<times> nat" where
  "getTodayTargetInVisibleWeek st now =
     (let visStart = visibleWeekFirst st
      in if now \<ge> visStart \<and> now \<le> addDays visStart 6 then (now, getDay now)
         else (visStart, 0))"

text \<open>Step 1 of \<^verbatim>\<open>_normalizeAndClip\<close>: the body of the loop over the ranges of day \<open>d\<close>.\<close>

definition pushDay :: "nat \<Rightarrow> range \<Rightarrow> weekRanges \<Rightarrow> weekRanges" where
  "pushDay d r norm = norm[d := norm ! d @ [r]]"

definition normRange :: "nat \<Rightarrow> range \<Rightarrow> weekRanges \<times> bool \<Rightarrow> weekRanges \<times> bool" where
  "normRange d r acc =
     (let (norm, hadOvernight) = acc;
          s = toInt32 (startMin r); e = toInt32 (endMin r)
      in if e > s then
           (let s' = round15 s; e' = round15 e
            in if e' > s' then (pushDay d \<lparr>startMin = s', endMin = e'\<rparr> norm, hadOvernight)
               else (norm, hadOvernight))
         else if e < s then
           (let s1 = round15 s; e1 = round15 (24 * 60);
                norm1 = (if e1 > s1 then pushDay d \<lparr>startMin = s1, endMin = e1\<rparr> norm else norm);
                s2 = round15 0; e2 = round15 e;
                dn = (d + 1) mod 7;
                norm2 = (if e2 > s2 then pushDay dn \<lparr>startMin = s2, endMin = e2\<rparr> norm1 else norm1)
            in (norm2, True))
         else (norm, hadOvernight))"



definition splitQuantize :: "weekRanges \<Rightarrow> weekRanges \<times> bool" where
  "splitQuantize weekRanges =
     fold (\<lambda>d acc. fold (normRange d) (dayOf weekRanges d) acc) [0..<7] (blankWeekRanges, False)"

text \<open>The \<^verbatim>\<open>req\<close> array of one day.\<close>

definition markRequested :: "range list \<Rightarrow> bool list" where
  "markRequested rs =
     fold (\<lambda>r req. fold (\<lambda>s req. req[s := True])
                      [nat (minsToSlot (startMin r))..<nat (minsToSlot (endMin r))] req)
       rs (replicate SLOTS_PER_DAY False)"

text \<open>\<^verbatim>\<open>req[s] && (occ[d][s]===null || occ[d][s]===taskKey)\<close>\<close>

definition slotOk :: "bool list \<Rightarrow> taskKey option list \<Rightarrow> taskKey \<Rightarrow> nat \<Rightarrow> bool" where
  "slotOk req occd taskKey s = (req ! s \<and> (occd ! s = None \<or> occd ! s = Some taskKey))"

text \<open>The three \<^verbatim>\<open>while\<close> loops of the sweep over the 96 slots of a day.\<close>

function skipBlocked :: "(nat \<Rightarrow> bool) \<Rightarrow> nat \<Rightarrow> nat" where
  "skipBlocked ok s = (if s < SLOTS_PER_DAY \<and> \<not> ok s then skipBlocked ok (s + 1) else s)"
  by pat_completeness auto
termination
  by (relation "measure (\<lambda>(ok, s). SLOTS_PER_DAY - s)") auto

function extendRun :: "(nat \<Rightarrow> bool) \<Rightarrow> nat \<Rightarrow> nat" where
  "extendRun ok e = (if e < SLOTS_PER_DAY \<and> ok e then extendRun ok (e + 1) else e)"
  by pat_completeness auto
termination
  by (relation "measure (\<lambda>(ok, e). SLOTS_PER_DAY - e)") auto

declare skipBlocked.simps [simp del] extendRun.simps [simp del]

function sweepRuns :: "(nat \<Rightarrow> bool) \<Rightarrow> nat \<Rightarrow> range list" where
  "sweepRuns ok s =
     (if s < SLOTS_PER_DAY then
        (let s1 = skipBlocked ok s
         in if s1 \<ge> SLOTS_PER_DAY then []
            else (let e = extendRun ok (s1 + 1);
                      startMin = int s1 * 15; endMin = int e * 15
                  in (if endMin > startMin then [\<lparr>startMin = startMin, endMin = endMin\<rparr>] else [])
                     @ sweepRuns ok e))
      else [])"
  by pat_completeness auto
termination
proof (relation "measure (\<lambda>(ok, s). SLOTS_PER_DAY - s)", goal_cases)
  case 1
  show ?case by simp
next
  case (2 ok s s1 e)
  have ge_skip: "s \<le> skipBlocked ok s" for s
    by (induction ok s rule: skipBlocked.induct) (subst skipBlocked.simps, auto)
  have ge_ext: "e \<le> extendRun ok e" for e
    by (induction ok e rule: extendRun.induct) (subst extendRun.simps, auto)
  show ?case
    using 2 ge_skip [of s] ge_ext [of "s1 + 1"] by simp
qed

declare sweepRuns.simps [simp del]

text \<open>The merge loop: its body, for the next range \<open>r\<close> of the sorted list.\<close>

definition mergeStep :: "range \<Rightarrow> range list \<Rightarrow> range list" where
  "mergeStep r merged =
     (if merged = [] then [r]
      else (let lst = last merged
            in if startMin r \<le> endMin lst
               then butlast merged @ [lst\<lparr>endMin := max (endMin lst) (endMin r)\<rparr>]
               else merged @ [r]))"

text \<open>
  One day of the clip loop: \<open>mergedDay\<close> is the array \<^verbatim>\<open>merged\<close> after the merge loop,
  \<open>clipDay\<close> the day after \<^verbatim>\<open>if(merged.length>4) merged.length=4\<close>.
\<close>

definition mergedDay :: "taskKey option list \<Rightarrow> taskKey \<Rightarrow> range list \<Rightarrow> range list" where
  "mergedDay occd taskKey normd =
     (let req = markRequested normd;
          clipped = sweepRuns (slotOk req occd taskKey) 0;
          sorted = sort_key startMin clipped
      in fold mergeStep sorted [])"

definition clipDay :: "taskKey option list \<Rightarrow> taskKey \<Rightarrow> range list \<Rightarrow> range list" where
  "clipDay occd taskKey normd =
     (let merged = mergedDay occd taskKey normd
      in if length merged > 4 then take 4 merged else merged)"

definition normalizeAndClip ::
    "core \<Rightarrow> date \<Rightarrow> string \<Rightarrow> taskKey \<Rightarrow> weekRanges \<Rightarrow> weekRanges \<times> range list" where
  "normalizeAndClip st now scope taskKey weekRanges =
     (let (norm, hadOvernight) = splitQuantize weekRanges;
          occ = buildOccupancyMap st taskKey;
          clipped = map (\<lambda>d. clipDay (occ ! d) taskKey (norm ! d)) [0..<7];
          spillNextDay =
            (if scope = ''today'' \<and> hadOvernight then
               (let (date, index) = getTodayTargetInVisibleWeek st now;
                    dn = (index + 1) mod 7
                in dayOf clipped dn)
             else [])
      in (clipped, spillNextDay))"

text \<open>
  The shape of a stored day: ranges on the 15-minute grid inside the day, each with its
  end after its start, in ascending order with a gap of at least one slot between
  neighbours; \<open>lo\<close> is a lower bound for the first start.
\<close>

fun separatedFrom :: "int \<Rightarrow> range list \<Rightarrow> bool" where
  "separatedFrom lo [] = True"
| "separatedFrom lo (r # rs) =
     (lo \<le> startMin r \<and> 15 dvd startMin r \<and> 15 dvd endMin r \<and>
      startMin r < endMin r \<and> endMin r \<le> 1440 \<and> separatedFrom (endMin r + 15) rs)"

section \<open>Saving, navigation, construction\<close>

text \<open>\<^verbatim>\<open>m[k] || {}\<close>\<close>

definition getOrEmpty :: "('a, ('b, 'v) dict) dict \<Rightarrow> 'a \<Rightarrow> ('b, 'v) dict" where
  "getOrEmpty m k = (case map_of m k of None \<Rightarrow> [] | Some inner \<Rightarrow> inner)"

text \<open>\<^verbatim>\<open>m[k1] = m[k1] || {}; m[k1][k2] = v\<close>\<close>

definition setInner :: "'a \<Rightarrow> 'b \<Rightarrow> 'v \<Rightarrow> ('a, ('b, 'v) dict) dict \<Rightarrow> ('a, ('b, 'v) dict) dict" where
  "setInner k1 k2 v m = AList.update k1 (AList.update k2 v (getOrEmpty m k1)) m"











section \<open>Example data\<close>

text \<open>
  A catalog of two tasks and a store in which both have a recurring template on Tuesday
  that overlaps from 10:00 to 12:00; the visible week starts on Sunday 2026-11-01
  (day 20758).
\<close>

definition exampleTasks :: "task list" where
  "exampleTasks =
     [\<lparr>key = ''work'', label = ''Work'', color = ''#D33C36'', hard = True\<rparr>,
      \<lparr>key = ''meals'', label = ''Meal Time'', color = ''#E0B21B'', hard = False\<rparr>]"

definition exampleCore :: core where
  "exampleCore =
     \<lparr>TASKS = exampleTasks,
      EXACT = [(''work'', [[], [], [\<lparr>startMin = 540, endMin = 720\<rparr>], [], [], [], []]),
               (''meals'', [[], [], [\<lparr>startMin = 600, endMin = 780\<rparr>], [], [], [], []])],
      byDate = [], byWeek = [], byMonth = [],
      LAST_SCOPE = [(''work'', ''recurring''), (''meals'', ''recurring'')],
      ORDER_recurring = [(''work'', 1), (''meals'', 2)], ORDER_week = [], ORDER_month = [],
      saveSeq = 3, weekOffset = 0, visibleWeekFirst = 20758\<rparr>"

text \<open>
  The same store after an import (\<^verbatim>\<open>setState\<close>) of an order table in which only
  \<^verbatim>\<open>meals\<close> has a stamp, and that stamp is larger than \<^verbatim>\<open>1e9\<close>.
\<close>

definition exampleLateStamp :: core where
  "exampleLateStamp = exampleCore\<lparr>ORDER_recurring := [(''meals'', 2000000000)]\<rparr>"

text \<open>The same store with a single stamp, a small one, for \<^verbatim>\<open>meals\<close>.\<close>

definition exampleOneStamp :: core where
  "exampleOneStamp = exampleCore\<lparr>ORDER_recurring := [(''meals'', 2)]\<rparr>"



section \<open>Geometry: remainder distribution\<close>














section \<open>Slot grid: bounds and first claim wins\<close>

lemma minsToSlot_bounds: "0 \<le> minsToSlot m \<and> minsToSlot m \<le> 96"
  by (simp add: minsToSlot_def SLOTS_PER_DAY_def)

lemma nat_minsToSlot_le: "nat (minsToSlot m) \<le> 96"
  using minsToSlot_bounds [of m] by linarith

lemma rangeCells_bounds:
  assumes "c \<in> set (rangeCells d R)" "d < 7"
  shows "fst c < 7 \<and> snd c < 96"
proof -
  have "s < 96" if "s \<in> set [nat (minsToSlot a)..<nat (minsToSlot b)]" for s a b
    using that nat_minsToSlot_le [of b] by simp
  then show ?thesis
    using assms by (auto simp: rangeCells_def Let_def split: if_splits)
qed

lemma coveredCells_bounds:
  assumes "c \<in> set (coveredCells exact)"
  shows "fst c < 7 \<and> snd c < 96"
proof -
  from assms obtain d R where "d < 7" "c \<in> set (rangeCells d R)"
    by (auto simp: coveredCells_def simp del: upt_Suc)
  then show ?thesis using rangeCells_bounds by blast
qed

lemma fold_concat_lists: "fold f (concat xss) = fold (fold f) xss"
  by (induction xss) simp_all

lemma applyRangesToSlots_fold:
  "applyRangesToSlots cat exact g = fold (claimSlot cat) (coveredCells exact) g"
  by (simp only: applyRangesToSlots_def coveredCells_def fold_concat_lists fold_map comp_def)

lemma wfSlots_nth: "wfSlots g \<Longrightarrow> d < 7 \<Longrightarrow> length (g ! d) = 96"
  by (simp add: wfSlots_def list_all_length SLOTS_PER_DAY_def)

lemma wfSlots_length: "wfSlots g \<Longrightarrow> length g = 7"
  by (simp add: wfSlots_def)

lemma wfSlots_blank: "wfSlots blankWeekSlots"
  by (simp add: wfSlots_def blankWeekSlots_def SLOTS_PER_DAY_def list_all_iff)

lemma blank_cell: "d < 7 \<Longrightarrow> s < 96 \<Longrightarrow> blankWeekSlots ! d ! s = None"
  by (simp add: blankWeekSlots_def SLOTS_PER_DAY_def)

lemma claimSlot_wf: "wfSlots g \<Longrightarrow> wfSlots (claimSlot cat c g)"
  by (cases c) (auto simp: claimSlot_def wfSlots_def list_all_length nth_list_update)

lemma claimSlot_cell:
  assumes "wfSlots g" "d < 7" "s < 96" "fst c < 7" "snd c < 96"
  shows "claimSlot cat c g ! d ! s =
           (case g ! d ! s of Some k \<Rightarrow> Some k | None \<Rightarrow> if c = (d, s) then Some cat else None)"
  using assms wfSlots_nth [OF assms(1)] wfSlots_length [OF assms(1)]
  by (cases c) (auto simp: claimSlot_def nth_list_update split: option.splits)

lemma fold_claimSlot_wf: "wfSlots g \<Longrightarrow> wfSlots (fold (claimSlot cat) cs g)"
  by (induction cs arbitrary: g) (simp_all add: claimSlot_wf)

lemma fold_claimSlot_cell:
  assumes "wfSlots g" "d < 7" "s < 96" "\<forall>c\<in>set cs. fst c < 7 \<and> snd c < 96"
  shows "fold (claimSlot cat) cs g ! d ! s =
           (case g ! d ! s of Some k \<Rightarrow> Some k
            | None \<Rightarrow> if (d, s) \<in> set cs then Some cat else None)"
  using assms
proof (induction cs arbitrary: g)
  case Nil
  then show ?case by (simp split: option.splits)
next
  case (Cons c cs)
  have w: "wfSlots (claimSlot cat c g)" using Cons.prems(1) by (rule claimSlot_wf)
  have c: "fst c < 7" "snd c < 96" using Cons.prems(4) by simp_all
  have "fold (claimSlot cat) (c # cs) g ! d ! s =
      (case claimSlot cat c g ! d ! s of Some k \<Rightarrow> Some k
       | None \<Rightarrow> if (d, s) \<in> set cs then Some cat else None)"
    using Cons.IH [OF w Cons.prems(2,3)] Cons.prems(4) by simp
  also have "\<dots> = (case g ! d ! s of Some k \<Rightarrow> Some k
       | None \<Rightarrow> if (d, s) \<in> set (c # cs) then Some cat else None)"
    unfolding claimSlot_cell [OF Cons.prems(1,2,3) c]
    by (auto split: option.splits)
  finally show ?case .
qed

lemma applyRangesToSlots_wf: "wfSlots g \<Longrightarrow> wfSlots (applyRangesToSlots cat exact g)"
  by (simp add: applyRangesToSlots_fold fold_claimSlot_wf)

lemma applyRangesToSlots_cell:
  assumes "wfSlots g" "d < 7" "s < 96"
  shows "applyRangesToSlots cat exact g ! d ! s =
           (case g ! d ! s of Some k \<Rightarrow> Some k
            | None \<Rightarrow> if (d, s) \<in> set (coveredCells exact) then Some cat else None)"
  unfolding applyRangesToSlots_fold
  using fold_claimSlot_cell [OF assms] coveredCells_bounds by blast

text \<open>Applying the tasks of a list in order, some of them skipped.\<close>

lemma fold_apply_wf:
  "wfSlots g \<Longrightarrow>
   wfSlots (fold (\<lambda>k g. if skip k then g else applyRangesToSlots k (eff k) g) ks g)"
  by (induction ks arbitrary: g) (simp_all add: applyRangesToSlots_wf)

lemma fold_apply_cell:
  assumes "wfSlots g" "d < 7" "s < 96"
  shows "fold (\<lambda>k g. if skip k then g else applyRangesToSlots k (eff k) g) ks g ! d ! s =
           (case g ! d ! s of Some k \<Rightarrow> Some k
            | None \<Rightarrow> List.find (\<lambda>k. \<not> skip k \<and> (d, s) \<in> set (coveredCells (eff k))) ks)"
  using assms
proof (induction ks arbitrary: g)
  case Nil
  then show ?case by (simp split: option.splits)
next
  case (Cons k ks)
  show ?case
  proof (cases "skip k")
    case True
    then show ?thesis using Cons by (simp split: option.splits)
  next
    case False
    have w: "wfSlots (applyRangesToSlots k (eff k) g)"
      using Cons.prems(1) by (rule applyRangesToSlots_wf)
    show ?thesis
      using False Cons.IH [OF w Cons.prems(2,3)]
        applyRangesToSlots_cell [OF Cons.prems, of k "eff k"]
      by (simp split: option.splits)
  qed
qed

lemma rebuild_wf: "wfSlots (rebuildSlotsForVisibleWeek st)"
  unfolding rebuildSlotsForVisibleWeek_def
  using fold_apply_wf [OF wfSlots_blank, of "\<lambda>k. False"] by simp

lemma rebuild_cell:
  assumes "d < 7" "s < 96"
  shows "rebuildSlotsForVisibleWeek st ! d ! s =
           List.find (\<lambda>k. (d, s) \<in> set (coveredCells (effectiveExactForTask st k))) (orderedKeys st)"
  unfolding rebuildSlotsForVisibleWeek_def
  using fold_apply_cell [OF wfSlots_blank assms, of "\<lambda>k. False"] blank_cell [OF assms]
  by simp

text \<open>
  Claim C1. For every store and every visible week the rebuilt grid is a 7 x 96 grid
  whose cell \<open>(d, s)\<close> holds the first task, in the order in which the tasks are
  processed, one of whose effective ranges covers the cell, and is empty when no task
  covers it; so a slot holds at most one task. Applying a task to a grid never changes
  a cell that an earlier task has claimed (first claim wins).
\<close>

theorem slot_grid_first_claim_wins:
  "wfSlots (rebuildSlotsForVisibleWeek st) \<and>
   (\<forall>d<7. \<forall>s<SLOTS_PER_DAY.
      rebuildSlotsForVisibleWeek st ! d ! s =
        List.find (\<lambda>k. (d, s) \<in> set (coveredCells (effectiveExactForTask st k)))
          (orderedKeys st)) \<and>
   (wfSlots g \<and> d < 7 \<and> s < SLOTS_PER_DAY \<and> g ! d ! s = Some k \<longrightarrow>
      applyRangesToSlots cat exact g ! d ! s = Some k)"
proof -
  have a: "\<forall>d<7. \<forall>s<SLOTS_PER_DAY.
      rebuildSlotsForVisibleWeek st ! d ! s =
        List.find (\<lambda>k. (d, s) \<in> set (coveredCells (effectiveExactForTask st k)))
          (orderedKeys st)"
    using rebuild_cell by (simp add: SLOTS_PER_DAY_def)
  have b: "wfSlots g \<and> d < 7 \<and> s < SLOTS_PER_DAY \<and> g ! d ! s = Some k \<longrightarrow>
      applyRangesToSlots cat exact g ! d ! s = Some k"
    using applyRangesToSlots_cell [of g d s cat exact] by (simp add: SLOTS_PER_DAY_def)
  from rebuild_wf a b show ?thesis by blast
qed

theorem slot_grid_first_claim_wins_witness:
  "rebuildSlotsForVisibleWeek exampleCore ! 2 ! 40 = Some ''work'' \<and>
   rebuildSlotsForVisibleWeek exampleCore ! 2 ! 50 = Some ''meals'' \<and>
   rebuildSlotsForVisibleWeek exampleCore ! 2 ! 60 = None \<and>
   wfSlots (rebuildSlotsForVisibleWeek exampleCore) \<and>
   applyRangesToSlots ''meals'' (effectiveExactForTask exampleCore ''meals'')
     (applyRangesToSlots ''work'' (effectiveExactForTask exampleCore ''work'') blankWeekSlots)
     ! 2 ! 40 = Some ''work''"
proof -
  define g where
    "g = applyRangesToSlots ''work'' (effectiveExactForTask exampleCore ''work'') blankWeekSlots"
  note t = slot_grid_first_claim_wins [of exampleCore g 2 40 "''work''" "''meals''"
      "effectiveExactForTask exampleCore ''meals''"]
  have b: "(2::nat) < 7" "(40::nat) < SLOTS_PER_DAY" "(50::nat) < SLOTS_PER_DAY"
    "(60::nat) < SLOTS_PER_DAY"
    by (simp_all add: SLOTS_PER_DAY_def)
  from t have cells: "\<forall>d<7. \<forall>s<SLOTS_PER_DAY.
      rebuildSlotsForVisibleWeek exampleCore ! d ! s =
        List.find (\<lambda>k. (d, s) \<in> set (coveredCells (effectiveExactForTask exampleCore k)))
          (orderedKeys exampleCore)"
    by blast
  have f40: "List.find (\<lambda>k. (2, 40) \<in> set (coveredCells (effectiveExactForTask exampleCore k)))
      (orderedKeys exampleCore) = Some ''work''"
    by code_simp
  have f50: "List.find (\<lambda>k. (2, 50) \<in> set (coveredCells (effectiveExactForTask exampleCore k)))
      (orderedKeys exampleCore) = Some ''meals''"
    by code_simp
  have f60: "List.find (\<lambda>k. (2, 60) \<in> set (coveredCells (effectiveExactForTask exampleCore k)))
      (orderedKeys exampleCore) = None"
    by code_simp
  have gw: "wfSlots g" unfolding g_def by code_simp
  have gc: "g ! 2 ! 40 = Some ''work''" unfolding g_def by code_simp
  from t gw gc b have app: "applyRangesToSlots ''meals''
      (effectiveExactForTask exampleCore ''meals'') g ! 2 ! 40 = Some ''work''"
    by blast
  from t have w: "wfSlots (rebuildSlotsForVisibleWeek exampleCore)" by blast
  show ?thesis
    using cells [rule_format, OF b(1) b(2)] cells [rule_format, OF b(1) b(3)]
      cells [rule_format, OF b(1) b(4)] f40 f50 f60 w app
    unfolding g_def by simp
qed

text \<open>
  Claim C10. For every integer minute value, negative or beyond 1440 included, the slot
  index is clamped to the interval from 0 to 96. Every cell that applying a week of
  ranges visits therefore lies inside the 7 days and the 96 slots of a day, whatever the
  ranges are, so applying ranges keeps the shape of the grid and the rebuilt grid is a
  7 x 96 grid for every store.
\<close>

theorem minsToSlot_clamped_in_bounds:
  "0 \<le> minsToSlot m \<and> minsToSlot m \<le> int SLOTS_PER_DAY \<and>
   (\<forall>c\<in>set (coveredCells exact). fst c < 7 \<and> snd c < SLOTS_PER_DAY) \<and>
   (wfSlots g \<longrightarrow> wfSlots (applyRangesToSlots cat exact g)) \<and>
   wfSlots (rebuildSlotsForVisibleWeek st)"
  using minsToSlot_bounds [of m] coveredCells_bounds [of _ exact]
    applyRangesToSlots_wf [of g cat exact] rebuild_wf [of st]
  by (simp add: SLOTS_PER_DAY_def)

theorem minsToSlot_clamped_in_bounds_witness:
  "minsToSlot (- 100) = 0 \<and> minsToSlot 5000 = 96 \<and>
   (0, 95) \<in> set (coveredCells [[\<lparr>startMin = - 100, endMin = 5000\<rparr>]]) \<and>
   wfSlots (applyRangesToSlots ''work'' [[\<lparr>startMin = - 100, endMin = 5000\<rparr>]] blankWeekSlots)"
proof -
  note t = minsToSlot_clamped_in_bounds [of "- 100" "[[\<lparr>startMin = - 100, endMin = 5000\<rparr>]]"
      blankWeekSlots "''work''" exampleCore]
  have m: "minsToSlot (- 100) = 0" "minsToSlot 5000 = 96" by code_simp+
  have c: "(0, 95) \<in> set (coveredCells [[\<lparr>startMin = - 100, endMin = 5000\<rparr>]])" by code_simp
  have w: "wfSlots blankWeekSlots" by code_simp
  from t c have "fst (0::nat, 95::nat) < 7 \<and> snd (0::nat, 95::nat) < SLOTS_PER_DAY" by blast
  with t w m c show ?thesis by blast
qed

section \<open>Priority order of the tasks\<close>

lemma hd_sort_Min:
  fixes xs :: "int list"
  shows "(case sort xs of [] \<Rightarrow> c | x # _ \<Rightarrow> x) = (if set xs = {} then c else Min (set xs))"
proof (cases "sort xs")
  case Nil
  then have "length (sort xs) = 0" by simp
  then have "xs = []" by simp
  then show ?thesis using Nil by simp
next
  case (Cons y ys)
  have s: "sorted (y # ys)" using Cons sorted_sort [of xs] by simp
  have e: "set xs = set (y # ys)" using Cons set_sort [of "\<lambda>x. x" xs] by simp
  have "Min (set xs) = y"
    unfolding e using s by (intro Min_eqI) auto
  then show ?thesis using Cons e by auto
qed

lemma set_definedStamps:
  "set (definedStamps st k) =
     set_option (lookup2 (ORDER_week st) (fmtWeekKey (visibleWeekFirst st)) k) \<union>
     set_option (lookup2 (ORDER_month st) (fmtMonthKey (visibleWeekFirst st)) k) \<union>
     set_option (map_of (ORDER_recurring st) k)"
proof -
  have "set [x. Some x \<leftarrow> [a, b, c]] = set_option a \<union> set_option b \<union> set_option c"
    for a b c :: "int option"
    by (cases a; cases b; cases c) auto
  then show ?thesis
    unfolding definedStamps_def Let_def by simp
qed

lemma seqForTask_Min:
  "seqForTask st k =
     (if definedStamps st k = [] then 1000000000 else Min (set (definedStamps st k)))"
  unfolding seqForTask_def hd_sort_Min by simp

lemma orderedKeys_sorted: "sorted (map (seqForTask st) (orderedKeys st))"
  by (simp add: orderedKeys_def)

lemma orderedKeys_stable:
  "filter (\<lambda>k. seqForTask st k = n) (orderedKeys st) =
   filter (\<lambda>k. seqForTask st k = n) (map key (TASKS st))"
  unfolding orderedKeys_def by (rule sort_key_stable)

lemma orderedKeys_mset: "mset (orderedKeys st) = mset (map key (TASKS st))"
  by (simp add: orderedKeys_def)

lemma orderedKeys_ascending:
  assumes "i < j" "j < length (orderedKeys st)"
  shows "seqForTask st (orderedKeys st ! i) \<le> seqForTask st (orderedKeys st ! j)"
  using orderedKeys_sorted [of st] assms
  by (simp add: sorted_iff_nth_mono_less)


text \<open>
  Claim C3, amended. The effective sequence of a task is the least of its stamps at the
  visible week's week key, at its month key and at the recurring scope, and the constant
  \<open>10\<^sup>9\<close> when it has no stamp there. The tasks are processed in a permutation of the
  catalog in ascending effective sequence, tasks of equal effective sequence in catalog
  order. A task without a stamp is processed after every task whose effective sequence
  is below \<open>10\<^sup>9\<close>.
\<close>

theorem effective_sequence_order:
  "set (definedStamps st k) =
     set_option (lookup2 (ORDER_week st) (fmtWeekKey (visibleWeekFirst st)) k) \<union>
     set_option (lookup2 (ORDER_month st) (fmtMonthKey (visibleWeekFirst st)) k) \<union>
     set_option (map_of (ORDER_recurring st) k) \<and>
   seqForTask st k =
     (if definedStamps st k = [] then 1000000000 else Min (set (definedStamps st k))) \<and>
   mset (orderedKeys st) = mset (map key (TASKS st)) \<and>
   (\<forall>i j. i < j \<and> j < length (orderedKeys st) \<longrightarrow>
      seqForTask st (orderedKeys st ! i) \<le> seqForTask st (orderedKeys st ! j)) \<and>
   filter (\<lambda>a. seqForTask st a = n) (orderedKeys st) =
     filter (\<lambda>a. seqForTask st a = n) (map key (TASKS st)) \<and>
   (\<forall>i j. i < length (orderedKeys st) \<and> j < length (orderedKeys st) \<and>
      definedStamps st (orderedKeys st ! i) = [] \<and>
      seqForTask st (orderedKeys st ! j) < 1000000000 \<longrightarrow> j < i)"
proof -
  have asc: "\<forall>i j. i < j \<and> j < length (orderedKeys st) \<longrightarrow>
      seqForTask st (orderedKeys st ! i) \<le> seqForTask st (orderedKeys st ! j)"
    using orderedKeys_ascending by blast
  have last: "j < i"
    if "i < length (orderedKeys st)" "j < length (orderedKeys st)"
      "definedStamps st (orderedKeys st ! i) = []"
      "seqForTask st (orderedKeys st ! j) < 1000000000" for i j
  proof (rule ccontr)
    assume "\<not> j < i"
    then have "i = j \<or> i < j" by auto
    moreover have "seqForTask st (orderedKeys st ! i) = 1000000000"
      using that(3) by (simp add: seqForTask_Min)
    ultimately show False
      using that(2,4) orderedKeys_ascending [of i j st] by auto
  qed
  from set_definedStamps [of st k] seqForTask_Min [of st k] orderedKeys_mset [of st] asc
    orderedKeys_stable [of st n] last
  show ?thesis by blast
qed

theorem effective_sequence_order_witness:
  "seqForTask exampleCore ''meals'' = 2 \<and>
   orderedKeys exampleCore = [''work'', ''meals''] \<and>
   seqForTask exampleCore (orderedKeys exampleCore ! 0) \<le>
     seqForTask exampleCore (orderedKeys exampleCore ! 1) \<and>
   orderedKeys exampleOneStamp = [''meals'', ''work''] \<and>
   filter (\<lambda>a. seqForTask exampleOneStamp a = 1000000000) (orderedKeys exampleOneStamp) =
     [''work''] \<and>
   definedStamps exampleOneStamp (orderedKeys exampleOneStamp ! 1) = [] \<and>
   seqForTask exampleOneStamp (orderedKeys exampleOneStamp ! 0) < 1000000000 \<and>
   (0::nat) < 1"
proof -
  note t = effective_sequence_order [of exampleCore "''meals''" 2]
  note u = effective_sequence_order [of exampleOneStamp "''work''" 1000000000]
  have ds: "definedStamps exampleCore ''meals'' = [2]" by code_simp
  have ok: "orderedKeys exampleCore = [''work'', ''meals'']" by code_simp
  have len: "(0::nat) < 1 \<and> 1 < length (orderedKeys exampleCore)" by code_simp
  from t ds have s: "seqForTask exampleCore ''meals'' = 2" by simp
  from t len have a: "seqForTask exampleCore (orderedKeys exampleCore ! 0) \<le>
     seqForTask exampleCore (orderedKeys exampleCore ! 1)" by blast
  have ok2: "orderedKeys exampleOneStamp = [''meals'', ''work'']" by code_simp
  have cat: "filter (\<lambda>a. seqForTask exampleOneStamp a = 1000000000)
      (map key (TASKS exampleOneStamp)) = [''work'']" by code_simp
  from u cat have f: "filter (\<lambda>a. seqForTask exampleOneStamp a = 1000000000)
      (orderedKeys exampleOneStamp) = [''work'']" by simp
  have l2: "(1::nat) < length (orderedKeys exampleOneStamp)"
    "(0::nat) < length (orderedKeys exampleOneStamp)"
    "definedStamps exampleOneStamp (orderedKeys exampleOneStamp ! 1) = []"
    "seqForTask exampleOneStamp (orderedKeys exampleOneStamp ! 0) < 1000000000"
    by code_simp+
  from u l2 have n: "(0::nat) < 1" by blast
  from s ok a ok2 f l2 n show ?thesis by blast
qed

text \<open>
  The claim as stated also promises that a task without a stamp sorts after every task
  that has one. In \<open>exampleLateStamp\<close> the task \<^verbatim>\<open>work\<close> has no stamp and
  \<^verbatim>\<open>meals\<close> has the stamp \<open>2 \<sqdot> 10\<^sup>9\<close>, and \<^verbatim>\<open>work\<close> is processed first.
\<close>

theorem unstamped_before_stamped_counterexample:
  "definedStamps exampleLateStamp ''work'' = [] \<and>
   definedStamps exampleLateStamp ''meals'' = [2000000000] \<and>
   map key (TASKS exampleLateStamp) = [''work'', ''meals''] \<and>
   orderedKeys exampleLateStamp = [''work'', ''meals'']"
  by code_simp

section \<open>Effective ranges\<close>










section \<open>The sweep over the slots of a day\<close>

lemma skipBlocked_ge: "s \<le> skipBlocked ok s"
  by (induction ok s rule: skipBlocked.induct) (subst skipBlocked.simps, auto)



lemma skipBlocked_ok: "skipBlocked ok s < SLOTS_PER_DAY \<Longrightarrow> ok (skipBlocked ok s)"
proof (induction ok s rule: skipBlocked.induct)
  case (1 ok s)
  show ?case
  proof (cases "s < SLOTS_PER_DAY \<and> \<not> ok s")
    case True
    then have "skipBlocked ok s = skipBlocked ok (s + 1)"
      by (subst skipBlocked.simps) simp
    then show ?thesis using 1 True by simp
  next
    case False
    then have "skipBlocked ok s = s" by (subst skipBlocked.simps) auto
    then show ?thesis using 1(2) False by simp
  qed
qed

lemma extendRun_ge: "e \<le> extendRun ok e"
  by (induction ok e rule: extendRun.induct) (subst extendRun.simps, auto)

lemma extendRun_le: "e \<le> SLOTS_PER_DAY \<Longrightarrow> extendRun ok e \<le> SLOTS_PER_DAY"
  by (induction ok e rule: extendRun.induct) (subst extendRun.simps, auto)


lemma extendRun_stop: "extendRun ok e < SLOTS_PER_DAY \<Longrightarrow> \<not> ok (extendRun ok e)"
proof (induction ok e rule: extendRun.induct)
  case (1 ok e)
  show ?case
  proof (cases "e < SLOTS_PER_DAY \<and> ok e")
    case True
    then have "extendRun ok e = extendRun ok (e + 1)"
      by (subst extendRun.simps) simp
    then show ?thesis using 1 True by simp
  next
    case False
    then have "extendRun ok e = e" by (subst extendRun.simps) auto
    then show ?thesis using 1(2) False by simp
  qed
qed



lemma sweepRuns_done: "SLOTS_PER_DAY \<le> skipBlocked ok s \<Longrightarrow> sweepRuns ok s = []"
  by (subst sweepRuns.simps) simp

lemma sweepRuns_step:
  assumes "skipBlocked ok s < SLOTS_PER_DAY"
  shows "sweepRuns ok s =
           \<lparr>startMin = int (skipBlocked ok s) * 15,
            endMin = int (extendRun ok (skipBlocked ok s + 1)) * 15\<rparr>
           # sweepRuns ok (extendRun ok (skipBlocked ok s + 1))"
proof -
  have "s < SLOTS_PER_DAY" using assms skipBlocked_ge [of s ok] by simp
  moreover have "skipBlocked ok s < extendRun ok (skipBlocked ok s + 1)"
    using extendRun_ge [of "skipBlocked ok s + 1" ok] by simp
  ultimately show ?thesis
    using assms by (subst sweepRuns.simps) (simp add: Let_def)
qed

lemma separatedFrom_mono: "separatedFrom lo rs \<Longrightarrow> lo' \<le> lo \<Longrightarrow> separatedFrom lo' rs"
  by (cases rs) auto








lemma sweepRuns_separated:
  "separatedFrom (int (skipBlocked ok s) * 15) (sweepRuns ok s)"
proof (induction ok s rule: sweepRuns.induct)
  case (1 ok s)
  show ?case
  proof (cases "skipBlocked ok s < SLOTS_PER_DAY")
    case False
    then show ?thesis by (simp add: sweepRuns_done)
  next
    case True
    define a where "a = skipBlocked ok s"
    define b where "b = extendRun ok (a + 1)"
    have s: "s < SLOTS_PER_DAY" using True skipBlocked_ge [of s ok] by simp
    have ab: "a < b" unfolding b_def using extendRun_ge [of "a + 1" ok] by simp
    have b96: "b \<le> SLOTS_PER_DAY"
      unfolding b_def using True by (intro extendRun_le) (simp add: a_def)
    have ih: "separatedFrom (int (skipBlocked ok b) * 15) (sweepRuns ok b)"
      using 1 [of a b] s True by (simp add: a_def b_def)
    have rest: "separatedFrom (int b * 15 + 15) (sweepRuns ok b)"
    proof (cases "skipBlocked ok b < SLOTS_PER_DAY")
      case False
      then show ?thesis by (simp add: sweepRuns_done)
    next
      case skb: True
      then have "b < SLOTS_PER_DAY" using skipBlocked_ge [of b ok] by simp
      then have "\<not> ok b" unfolding b_def by (rule extendRun_stop)
      moreover have "ok (skipBlocked ok b)" using skb by (rule skipBlocked_ok)
      ultimately have "skipBlocked ok b \<noteq> b" by auto
      then have "b < skipBlocked ok b" using skipBlocked_ge [of b ok] by simp
      then have "int b * 15 + 15 \<le> int (skipBlocked ok b) * 15" by simp
      then show ?thesis using ih separatedFrom_mono by blast
    qed
    have "sweepRuns ok s = \<lparr>startMin = int a * 15, endMin = int b * 15\<rparr> # sweepRuns ok b"
      unfolding a_def b_def using True by (rule sweepRuns_step)
    then show ?thesis
      using rest ab b96 by (simp add: a_def [symmetric] SLOTS_PER_DAY_def)
  qed
qed


lemma sweepRuns_after_run:
  "separatedFrom (int (extendRun ok e) * 15 + 15) (sweepRuns ok (extendRun ok e))"
proof (cases "skipBlocked ok (extendRun ok e) < SLOTS_PER_DAY")
  case False
  then show ?thesis by (simp add: sweepRuns_done)
next
  case True
  define b where "b = extendRun ok e"
  have "b < SLOTS_PER_DAY" using True skipBlocked_ge [of b ok] by (simp add: b_def)
  then have "\<not> ok b" unfolding b_def by (rule extendRun_stop)
  moreover have "ok (skipBlocked ok b)" using True unfolding b_def by (rule skipBlocked_ok)
  ultimately have "skipBlocked ok b \<noteq> b" by auto
  then have "b < skipBlocked ok b" using skipBlocked_ge [of b ok] by simp
  then have "int b * 15 + 15 \<le> int (skipBlocked ok b) * 15" by simp
  then show ?thesis
    using sweepRuns_separated [of ok b] separatedFrom_mono unfolding b_def by blast
qed





lemma mark_inner_length: "length (fold (\<lambda>s req. req[s := True]) ss req) = length req"
  by (induction ss arbitrary: req) simp_all

lemma mark_inner_nth:
  "t < length req \<Longrightarrow> fold (\<lambda>s req. req[s := True]) ss req ! t = (req ! t \<or> t \<in> set ss)"
proof (induction ss arbitrary: req)
  case Nil
  then show ?case by simp
next
  case (Cons a ss)
  have "fold (\<lambda>s req. req[s := True]) (a # ss) req ! t =
      fold (\<lambda>s req. req[s := True]) ss (req[a := True]) ! t" by simp
  also have "\<dots> = (req[a := True] ! t \<or> t \<in> set ss)"
    using Cons.IH [of "req[a := True]"] Cons.prems by simp
  also have "\<dots> = (req ! t \<or> t \<in> set (a # ss))"
    using Cons.prems by (cases "a < length req") (auto simp: nth_list_update)
  finally show ?case .
qed

lemma mark_outer:
  fixes f :: "range \<Rightarrow> nat list"
  shows "length (fold (\<lambda>r req. fold (\<lambda>s req. req[s := True]) (f r) req) rs req) = length req \<and>
   (t < length req \<longrightarrow>
      fold (\<lambda>r req. fold (\<lambda>s req. req[s := True]) (f r) req) rs req ! t =
        (req ! t \<or> (\<exists>r\<in>set rs. t \<in> set (f r))))"
proof (induction rs arbitrary: req)
  case Nil
  then show ?case by simp
next
  case (Cons r rs)
  show ?case
    using Cons [of "fold (\<lambda>s req. req[s := True]) (f r) req"]
    by (auto simp: mark_inner_length mark_inner_nth)
qed

lemma markRequested_length: "length (markRequested rs) = SLOTS_PER_DAY"
  unfolding markRequested_def
  using mark_outer [of "\<lambda>r. [nat (minsToSlot (startMin r))..<nat (minsToSlot (endMin r))]" rs
      "replicate SLOTS_PER_DAY False"]
  by simp














section \<open>Saving at today scope\<close>

lemma seqForTask_LAST_SCOPE [simp]: "seqForTask (st\<lparr>LAST_SCOPE := x\<rparr>) = seqForTask st"
  by (rule ext) (simp add: seqForTask_def definedStamps_def)

lemma effectiveExactForTask_LAST_SCOPE [simp]:
  "effectiveExactForTask (st\<lparr>LAST_SCOPE := x\<rparr>) = effectiveExactForTask st"
  by (rule ext) (simp add: effectiveExactForTask_def)

lemma buildOccupancyMap_LAST_SCOPE [simp]:
  "buildOccupancyMap (st\<lparr>LAST_SCOPE := x\<rparr>) = buildOccupancyMap st"
  by (rule ext) (simp add: buildOccupancyMap_def orderedKeys_def cong: if_cong)

lemma getTodayTarget_LAST_SCOPE [simp]:
  "getTodayTargetInVisibleWeek (st\<lparr>LAST_SCOPE := x\<rparr>) = getTodayTargetInVisibleWeek st"
  by (rule ext) (simp add: getTodayTargetInVisibleWeek_def)

lemma normalizeAndClip_LAST_SCOPE [simp]:
  "normalizeAndClip (st\<lparr>LAST_SCOPE := x\<rparr>) = normalizeAndClip st"
  by (intro ext) (simp add: normalizeAndClip_def cong: if_cong)

lemma lookup2_setInner_same [simp]: "lookup2 (setInner k1 k2 v m) k1 k2 = Some v"
  by (simp add: lookup2_def setInner_def update_conv')


lemma map_of_setInner_other [simp]:
  "k \<noteq> k1 \<Longrightarrow> map_of (setInner k1 k2 v m) k = map_of m k"
  by (simp add: setInner_def update_conv')

lemma lookup2_setInner_other [simp]:
  "k \<noteq> k1 \<Longrightarrow> lookup2 (setInner k1 k2 v m) k = lookup2 m k"
  by (rule ext) (simp add: lookup2_def)









section \<open>Step 1: split and quantize\<close>

lemma round15_consts [simp]: "round15 (24 * 60) = 1440" "round15 0 = 0"
  by (simp_all add: round15_def roundQuarter_def)
















section \<open>A save leaves the occupancy of the other tasks unchanged\<close>




















section \<open>The example stores, evaluated\<close>













section \<open>Saving at today scope: the target date\<close>





lemma today_index_lt7: "snd (getTodayTargetInVisibleWeek st now) < 7"
proof -
  have "0 \<le> (now + 4) mod 7 \<and> (now + 4) mod 7 < 7" by simp
  then have "nat ((now + 4) mod 7) < 7" by linarith
  then show ?thesis
    by (simp add: getTodayTargetInVisibleWeek_def getDay_def Let_def)
qed





section \<open>Saving at today scope: the next calendar date\<close>











section \<open>Order stamps\<close>

















section \<open>The output of normalize and clip\<close>

lemma round15_1440 [simp]: "round15 1440 = 1440"
  by (simp add: round15_def roundQuarter_def)












end
